theory Spec2Isabelle
  imports Main "HOL-Library.Multiset"
begin

section \<open>Client-side helpers of the Cancer Risk Assessment Platform (static/js/main.js)\<close>

text \<open>
  The script attaches event handlers to the page. Two of them carry logic of their own:
  the click handler of the sortable table headers (lines 165 to 196) and the
  \<^verbatim>\<open>input\<close> handler of the number fields (lines 72 to 85). Both are embedded here as
  functions on an explicit page state.

  A JavaScript string is a sequence of UTF-16 code units; a code unit is a natural
  number, so that every string the script can see is a value of \<open>js_string\<close>.
  An exception is a value: the only one these handlers can raise is the
  \<^verbatim>\<open>TypeError\<close> of reading a property of \<^verbatim>\<open>null\<close> or \<^verbatim>\<open>undefined\<close>.
\<close>

type_synonym js_string = "nat list"

datatype js_error = TypeError

definition js :: "string \<Rightarrow> js_string" where
  "js s = map of_char s"

subsection \<open>Number input formatting (lines 72 to 85)\<close>

definition is_digit :: "nat \<Rightarrow> bool" where
  "is_digit c \<longleftrightarrow> 48 \<le> c \<and> c \<le> 57"

definition dot :: nat where
  "dot = 46"

text \<open>\<^verbatim>\<open>value.replace(/[^0-9.]/g, '')\<close>: every code unit outside the class is deleted.\<close>

definition strip_non_numeric :: "js_string \<Rightarrow> js_string" where
  "strip_non_numeric v = filter (\<lambda>c. is_digit c \<or> c = dot) v"

text \<open>\<^verbatim>\<open>value.split('.')\<close>: the pieces between the dots; never an empty array.\<close>

fun split_dot :: "js_string \<Rightarrow> js_string list" where
  "split_dot [] = [[]]"
| "split_dot (c # cs) =
     (if c = dot then [] # split_dot cs
      else (c # hd (split_dot cs)) # tl (split_dot cs))"

text \<open>
  Assigning to \<^verbatim>\<open>this.value\<close> of an \<^verbatim>\<open>input[type="number"]\<close> runs the
  browser's value sanitization: a string that is not a valid floating-point number is
  replaced by the empty string. Which strings are valid is the browser's business
  and is a parameter here; a field that keeps every string has \<open>valid = (\<lambda>_. True)\<close>.
\<close>

definition set_value :: "(js_string \<Rightarrow> bool) \<Rightarrow> js_string \<Rightarrow> js_string" where
  "set_value valid s = (if valid s then s else [])"

text \<open>The handler: takes the value the field has and returns the value it is left with.\<close>

definition number_input_handler :: "(js_string \<Rightarrow> bool) \<Rightarrow> js_string \<Rightarrow> js_string" where
  "number_input_handler valid v =
     (let v1 = set_value valid (strip_non_numeric v);
          parts = split_dot v1
      in if length parts > 2
         then set_value valid (hd parts @ [dot] @ concat (tl parts))
         else v1)"

text \<open>
  What the comments of the handler promise, in words of their own: only digits and
  dots are kept, and of the dots only the first.
\<close>

definition keep_first_dot :: "js_string \<Rightarrow> js_string" where
  "keep_first_dot s =
     takeWhile (\<lambda>c. c \<noteq> dot) s @
       (case dropWhile (\<lambda>c. c \<noteq> dot) s of
          [] \<Rightarrow> []
        | d # rest \<Rightarrow> d # filter (\<lambda>c. c \<noteq> dot) rest)"

subsection \<open>Table sorting (lines 165 to 196)\<close>

text \<open>
  The part of the document the handler reads and writes:
  \<^item> a row is a \<^verbatim>\<open>tr\<close> node: its identity and the \<^verbatim>\<open>textContent\<close> of each of
    its cells, in order;
  \<^item> a sortable header is a node of the list \<^verbatim>\<open>sortableHeaders\<close>, collected once
    when the page has loaded: its \<^verbatim>\<open>classList\<close>, the table \<^verbatim>\<open>closest('table')\<close>
    finds (or \<^verbatim>\<open>null\<close>), and its index among the children of its parent;
  \<^item> for each table, the rows \<^verbatim>\<open>tbody.querySelectorAll('tr')\<close> finds in the first
    \<^verbatim>\<open>tbody\<close> of the table, or nothing when the table has no \<^verbatim>\<open>tbody\<close>. The rows
    of a body are its children (tables are not nested inside cells).
\<close>

record row =
  node_id :: nat
  cells :: "js_string list"

record header =
  classList :: "string list"
  closest_table :: "nat option"
  column_index :: nat

record page =
  sortableHeaders :: "header list"
  tbody_rows :: "nat \<Rightarrow> row list option"

text \<open>\<^verbatim>\<open>String.prototype.trim\<close>: white space and line terminators of ECMAScript.\<close>

definition is_white_space :: "nat \<Rightarrow> bool" where
  "is_white_space c \<longleftrightarrow>
     c \<in> {9, 10, 11, 12, 13, 32, 160, 5760, 8232, 8233, 8239, 8287, 12288, 65279}
     \<or> (8192 \<le> c \<and> c \<le> 8202)"

definition trim :: "js_string \<Rightarrow> js_string" where
  "trim s = rev (dropWhile is_white_space (rev (dropWhile is_white_space s)))"

text \<open>\<^verbatim>\<open>classList.contains\<close>, \<^verbatim>\<open>classList.remove\<close> of two tokens, \<^verbatim>\<open>classList.add\<close>.\<close>

definition contains :: "string list \<Rightarrow> string \<Rightarrow> bool" where
  "contains cl tok \<longleftrightarrow> tok \<in> set cl"

definition remove_sort_classes :: "header \<Rightarrow> header" where
  "remove_sort_classes h =
     h\<lparr>classList := filter (\<lambda>t. t \<noteq> ''sort-asc'' \<and> t \<noteq> ''sort-desc'') (classList h)\<rparr>"

definition add_class :: "string \<Rightarrow> header \<Rightarrow> header" where
  "add_class tok h =
     (if tok \<in> set (classList h) then h else h\<lparr>classList := classList h @ [tok]\<rparr>)"

text \<open>\<^verbatim>\<open>row.cells[column].textContent.trim()\<close>: a row without that cell raises.\<close>

definition cell_value :: "row \<Rightarrow> nat \<Rightarrow> js_error + js_string" where
  "cell_value r column =
     (if column < length (cells r) then Inr (trim (cells r ! column)) else Inl TypeError)"

text \<open>
  The comparison function handed to \<^verbatim>\<open>rows.sort\<close>. The collation
  \<^verbatim>\<open>x.localeCompare(y, undefined, { numeric: true })\<close> belongs to the browser and is
  the parameter \<open>lc\<close>.
\<close>

definition comparator ::
  "(js_string \<Rightarrow> js_string \<Rightarrow> int) \<Rightarrow> nat \<Rightarrow> bool \<Rightarrow> row \<Rightarrow> row \<Rightarrow> js_error + int" where
  "comparator lc column isAscending a b =
     (case cell_value a column of
        Inl e \<Rightarrow> Inl e
      | Inr aValue \<Rightarrow>
          (case cell_value b column of
             Inl e \<Rightarrow> Inl e
           | Inr bValue \<Rightarrow>
               if isAscending then Inr (lc bValue aValue) else Inr (lc aValue bValue)))"

text \<open>
  \<^verbatim>\<open>Array.prototype.sort\<close> with a comparison function is a stable sort: \<open>a\<close> stays
  before a later \<open>b\<close> unless the function returns a positive number for them. It is
  embedded as a stable insertion sort; an exception of the comparison function ends
  the sort.
\<close>

fun insert_sorted :: "('a \<Rightarrow> 'a \<Rightarrow> js_error + int) \<Rightarrow> 'a \<Rightarrow> 'a list \<Rightarrow> js_error + 'a list" where
  "insert_sorted c x [] = Inr [x]"
| "insert_sorted c x (y # ys) =
     (case c x y of
        Inl e \<Rightarrow> Inl e
      | Inr n \<Rightarrow>
          if n \<le> 0 then Inr (x # y # ys)
          else (case insert_sorted c x ys of Inl e \<Rightarrow> Inl e | Inr zs \<Rightarrow> Inr (y # zs)))"

fun array_sort :: "('a \<Rightarrow> 'a \<Rightarrow> js_error + int) \<Rightarrow> 'a list \<Rightarrow> js_error + 'a list" where
  "array_sort c [] = Inr []"
| "array_sort c (x # xs) =
     (case array_sort c xs of Inl e \<Rightarrow> Inl e | Inr ys \<Rightarrow> insert_sorted c x ys)"

text \<open>\<^verbatim>\<open>tbody.appendChild(row)\<close> moves the node to the end of the body.\<close>

definition appendChild :: "row list \<Rightarrow> row \<Rightarrow> row list" where
  "appendChild children r = filter (\<lambda>x. node_id x \<noteq> node_id r) children @ [r]"

text \<open>Lines 182 to 194: sort the array of rows, then re-append each row in that order.\<close>

definition sort_and_rebuild ::
  "(js_string \<Rightarrow> js_string \<Rightarrow> int) \<Rightarrow> nat \<Rightarrow> bool \<Rightarrow> row list \<Rightarrow> js_error + row list" where
  "sort_and_rebuild lc column isAscending rows =
     (case array_sort (comparator lc column isAscending) rows of
        Inl e \<Rightarrow> Inl e
      | Inr sorted_rows \<Rightarrow> Inr (foldl appendChild rows sorted_rows))"

text \<open>
  The click handler of the \<open>i\<close>-th sortable header. It returns the page it leaves
  behind and the exception it raised, if any: the classes are written before the rows
  are sorted, so a failing comparison leaves the new classes in place.
\<close>

definition update_classes :: "nat \<Rightarrow> bool \<Rightarrow> header list \<Rightarrow> header list" where
  "update_classes i isAscending hs =
     (let cleared = map remove_sort_classes hs
      in cleared[i := add_class (if isAscending then ''sort-desc'' else ''sort-asc'') (cleared ! i)])"

definition click :: "(js_string \<Rightarrow> js_string \<Rightarrow> int) \<Rightarrow> page \<Rightarrow> nat \<Rightarrow> page \<times> js_error option" where
  "click lc p i =
     (let this = sortableHeaders p ! i in
      case closest_table this of
        None \<Rightarrow> (p, Some TypeError)
      | Some t \<Rightarrow>
          (case tbody_rows p t of
             None \<Rightarrow> (p, Some TypeError)
           | Some rows \<Rightarrow>
               let column = column_index this;
                   isAscending = contains (classList this) ''sort-asc'';
                   p1 = p\<lparr>sortableHeaders := update_classes i isAscending (sortableHeaders p)\<rparr>
               in (case sort_and_rebuild lc column isAscending rows of
                     Inl e \<Rightarrow> (p1, Some e)
                   | Inr rows' \<Rightarrow>
                       (p1\<lparr>tbody_rows := fun_upd (tbody_rows p1) t (Some rows')\<rparr>, None))))"

text \<open>The direction marker a header shows, read the way the handler reads it.\<close>

datatype direction = Unset | Ascending | Descending

definition marker :: "header \<Rightarrow> direction" where
  "marker h =
     (if contains (classList h) ''sort-asc'' then Ascending
      else if contains (classList h) ''sort-desc'' then Descending
      else Unset)"

fun toggled :: "direction \<Rightarrow> direction" where
  "toggled Unset = Ascending"
| "toggled Descending = Ascending"
| "toggled Ascending = Descending"

subsection \<open>Notions used to state the properties\<close>

text \<open>
  The sort without exceptions, for a comparison function that always returns: the same
  insertion, on integers instead of results.
\<close>

fun insert_by :: "('a \<Rightarrow> 'a \<Rightarrow> int) \<Rightarrow> 'a \<Rightarrow> 'a list \<Rightarrow> 'a list" where
  "insert_by f x [] = [x]"
| "insert_by f x (y # ys) = (if f x y \<le> 0 then x # y # ys else y # insert_by f x ys)"

fun sort_by :: "('a \<Rightarrow> 'a \<Rightarrow> int) \<Rightarrow> 'a list \<Rightarrow> 'a list" where
  "sort_by f [] = []"
| "sort_by f (x # xs) = insert_by f x (sort_by f xs)"

text \<open>The sort key of a row and the two orders of the handler on rows.\<close>

definition row_key :: "nat \<Rightarrow> row \<Rightarrow> js_string" where
  "row_key column r = trim (cells r ! column)"

definition ascending_order :: "(js_string \<Rightarrow> js_string \<Rightarrow> int) \<Rightarrow> nat \<Rightarrow> row \<Rightarrow> row \<Rightarrow> bool" where
  "ascending_order lc column a b \<longleftrightarrow> lc (row_key column a) (row_key column b) \<le> 0"

definition descending_order :: "(js_string \<Rightarrow> js_string \<Rightarrow> int) \<Rightarrow> nat \<Rightarrow> row \<Rightarrow> row \<Rightarrow> bool" where
  "descending_order lc column a b \<longleftrightarrow> lc (row_key column b) (row_key column a) \<le> 0"

text \<open>The number the comparison function returns for two rows that have the cell.\<close>

definition row_compare :: "(js_string \<Rightarrow> js_string \<Rightarrow> int) \<Rightarrow> nat \<Rightarrow> bool \<Rightarrow> row \<Rightarrow> row \<Rightarrow> int" where
  "row_compare lc column isAscending a b =
     (if isAscending then lc (row_key column b) (row_key column a)
      else lc (row_key column a) (row_key column b))"

text \<open>
  What ECMAScript asks of a comparison function for the sort order to be defined
  (a consistent comparator): the sign flips with the operands, and the order is
  transitive.
\<close>

definition consistent_comparator :: "(js_string \<Rightarrow> js_string \<Rightarrow> int) \<Rightarrow> bool" where
  "consistent_comparator lc \<longleftrightarrow>
     (\<forall>a b. (lc a b < 0) = (0 < lc b a)) \<and>
     (\<forall>a b c. lc a b \<le> 0 \<longrightarrow> lc b c \<le> 0 \<longrightarrow> lc a c \<le> 0)"

text \<open>
  Numeric collation on short purely numeric text: two decimal numerals of one or two
  digits, without leading zeros, compare as the numbers they denote. Nothing is asked
  about longer numerals or about any other text.
\<close>

definition decimal :: "js_string \<Rightarrow> nat" where
  "decimal s = foldl (\<lambda>n c. 10 * n + (c - 48)) 0 s"

definition numeral_text :: "js_string \<Rightarrow> bool" where
  "numeral_text s \<longleftrightarrow>
     s \<noteq> [] \<and> length s \<le> 2 \<and> list_all is_digit s \<and> (hd s \<noteq> 48 \<or> s = [48])"

definition numeric_collation :: "(js_string \<Rightarrow> js_string \<Rightarrow> int) \<Rightarrow> bool" where
  "numeric_collation lc \<longleftrightarrow>
     (\<forall>s t. numeral_text s \<longrightarrow> numeral_text t \<longrightarrow>
        ((lc s t < 0) = (decimal s < decimal t)) \<and> ((0 < lc s t) = (decimal t < decimal s)))"

text \<open>
  A comparison by decimal value: one collation with both properties. Like the
  browser's numeric collation it does not tell "1" from "01".
\<close>

definition decimal_compare :: "js_string \<Rightarrow> js_string \<Rightarrow> int" where
  "decimal_compare s t = int (decimal s) - int (decimal t)"

text \<open>Every row has a cell in the column; the nodes of a body are distinct.\<close>

definition has_column :: "nat \<Rightarrow> row list \<Rightarrow> bool" where
  "has_column column rows \<longleftrightarrow> list_all (\<lambda>r. column < length (cells r)) rows"

definition distinct_nodes :: "row list \<Rightarrow> bool" where
  "distinct_nodes rows \<longleftrightarrow> distinct (map node_id rows)"

text \<open>
  Two ways to say that the keys of a column differ: as texts (the trimmed cell texts
  of the rows are pairwise distinct), and under the collation (no two different rows
  compare equal). A collation may hold two distinct texts equal, so the second asks
  more than the first.
\<close>

definition pairwise_distinct_keys :: "nat \<Rightarrow> row list \<Rightarrow> bool" where
  "pairwise_distinct_keys column rows \<longleftrightarrow> distinct (map (row_key column) rows)"

definition no_ties :: "(js_string \<Rightarrow> js_string \<Rightarrow> int) \<Rightarrow> nat \<Rightarrow> row list \<Rightarrow> bool" where
  "no_ties lc column rows \<longleftrightarrow>
     (\<forall>a \<in> set rows. \<forall>b \<in> set rows. a \<noteq> b \<longrightarrow> lc (row_key column a) (row_key column b) \<noteq> 0)"

text \<open>
  The direction the handler resolves to (line 179): the class it adds is
  \<^verbatim>\<open>sort-desc\<close> when the header carried \<^verbatim>\<open>sort-asc\<close>, and \<^verbatim>\<open>sort-asc\<close> otherwise.
\<close>

definition new_direction :: "bool \<Rightarrow> direction" where
  "new_direction isAscending = (if isAscending then Descending else Ascending)"

text \<open>In every body of the page the rows are distinct nodes.\<close>

definition distinct_bodies :: "page \<Rightarrow> bool" where
  "distinct_bodies p \<longleftrightarrow> (\<forall>t rows. tbody_rows p t = Some rows \<longrightarrow> distinct_nodes rows)"

text \<open>The direction markers a header carries, as a list of class tokens.\<close>

definition markers :: "header \<Rightarrow> string list" where
  "markers h = filter (\<lambda>t. t = ''sort-asc'' \<or> t = ''sort-desc'') (classList h)"

text \<open>Pages used as concrete inputs.\<close>

definition plain_header :: "nat option \<Rightarrow> nat \<Rightarrow> header" where
  "plain_header t column =
     \<lparr>classList = [''sortable''], closest_table = t, column_index = column\<rparr>"

definition mk_row :: "nat \<Rightarrow> string list \<Rightarrow> row" where
  "mk_row n texts = \<lparr>node_id = n, cells = map js texts\<rparr>"

definition demo_rows :: "row list" where
  "demo_rows = [mk_row 11 [''2'', ''b''], mk_row 12 ['' 10 '', ''a''], mk_row 13 [''1'', ''c'']]"

definition numeric_rows :: "row list" where
  "numeric_rows = [mk_row 21 [''2''], mk_row 22 [''10''], mk_row 23 [''1'']]"

definition demo_page :: page where
  "demo_page =
     \<lparr>sortableHeaders =
        [plain_header (Some 0) 0,
         (plain_header (Some 0) 1)\<lparr>classList := [''sortable'', ''sort-desc'']\<rparr>,
         plain_header None 0,
         plain_header (Some 1) 0,
         plain_header (Some 2) 0,
         plain_header (Some 3) 0],
      tbody_rows =
        (\<lambda>t. if t = 0 then Some demo_rows
             else if t = 2 then Some []
             else if t = 3 then Some numeric_rows
             else None)\<rparr>"

text \<open>A table whose cell texts "1", "01", "0" are pairwise distinct, under one header.\<close>

definition tie_rows :: "row list" where
  "tie_rows = [mk_row 31 [''1''], mk_row 32 [''01''], mk_row 33 [''0'']]"

definition tie_page :: page where
  "tie_page =
     \<lparr>sortableHeaders = [plain_header (Some 0) 0],
      tbody_rows = (\<lambda>t. if t = 0 then Some tie_rows else None)\<rparr>"

section \<open>Properties\<close>

subsection \<open>The sort\<close>

text \<open>Where the comparison function raises nothing, the sort is the pure insertion sort.\<close>

lemma insert_sorted_pure:
  "\<forall>y\<in>set ys. c x y = Inr (f x y) \<Longrightarrow> insert_sorted c x ys = Inr (insert_by f x ys)"
  by (induction ys) auto

lemma set_insert_by: "set (insert_by f x xs) = insert x (set xs)"
  by (induction xs) auto

lemma mset_insert_by: "mset (insert_by f x xs) = add_mset x (mset xs)"
  by (induction xs) auto

lemma mset_sort_by: "mset (sort_by f xs) = mset xs"
  by (induction xs) (auto simp: mset_insert_by)

lemma set_sort_by: "set (sort_by f xs) = set xs"
  by (induction xs) (auto simp: set_insert_by)

lemma array_sort_pure:
  "\<forall>x\<in>set xs. \<forall>y\<in>set xs. c x y = Inr (f x y) \<Longrightarrow> array_sort c xs = Inr (sort_by f xs)"
proof (induction xs)
  case Nil
  then show ?case by simp
next
  case (Cons x xs)
  then have "array_sort c xs = Inr (sort_by f xs)" by simp
  moreover have "insert_sorted c x (sort_by f xs) = Inr (insert_by f x (sort_by f xs))"
    using Cons.prems by (intro insert_sorted_pure) (simp add: set_sort_by)
  ultimately show ?case by simp
qed

lemma mset_insert_sorted:
  "insert_sorted c x ys = Inr zs \<Longrightarrow> mset zs = add_mset x (mset ys)"
  by (induction ys arbitrary: zs) (auto split: sum.splits if_splits)

lemma mset_array_sort:
  "array_sort c xs = Inr ys \<Longrightarrow> mset ys = mset xs"
  by (induction xs arbitrary: ys) (auto split: sum.splits dest: mset_insert_sorted)

lemma sorted_insert_by:
  assumes total: "\<forall>a b. f a b \<le> 0 \<or> f b a \<le> 0"
    and trans: "\<forall>a b c. f a b \<le> 0 \<longrightarrow> f b c \<le> 0 \<longrightarrow> f a c \<le> 0"
    and sorted: "sorted_wrt (\<lambda>a b. f a b \<le> 0) xs"
  shows "sorted_wrt (\<lambda>a b. f a b \<le> 0) (insert_by f x xs)"
  using sorted
proof (induction xs)
  case Nil
  then show ?case by simp
next
  case (Cons y ys)
  show ?case
  proof (cases "f x y \<le> 0")
    case True
    have "\<forall>z\<in>set ys. f x z \<le> 0"
    proof
      fix z assume "z \<in> set ys"
      with Cons.prems have "f y z \<le> 0" by simp
      with True trans show "f x z \<le> 0" by blast
    qed
    with Cons.prems True show ?thesis by simp
  next
    case False
    with total have yx: "f y x \<le> 0" by blast
    have "sorted_wrt (\<lambda>a b. f a b \<le> 0) (insert_by f x ys)"
      using Cons by simp
    moreover have "\<forall>z\<in>set (insert_by f x ys). f y z \<le> 0"
      using Cons.prems yx by (simp add: set_insert_by)
    ultimately show ?thesis using False by simp
  qed
qed

lemma sorted_sort_by:
  assumes total: "\<forall>a b. f a b \<le> 0 \<or> f b a \<le> 0"
    and trans: "\<forall>a b c. f a b \<le> 0 \<longrightarrow> f b c \<le> 0 \<longrightarrow> f a c \<le> 0"
  shows "sorted_wrt (\<lambda>a b. f a b \<le> 0) (sort_by f xs)"
proof (induction xs)
  case Nil
  then show ?case by simp
next
  case (Cons x xs)
  have "sorted_wrt (\<lambda>a b. f a b \<le> 0) (insert_by f x (sort_by f xs))"
    using total trans Cons.IH by (rule sorted_insert_by)
  then show ?case by simp
qed

lemma sort_by_sorted:
  "sorted_wrt (\<lambda>a b. f a b \<le> 0) xs \<Longrightarrow> sort_by f xs = xs"
proof (induction xs)
  case Nil
  then show ?case by simp
next
  case (Cons x xs)
  then have "sort_by f xs = xs" by simp
  moreover have "insert_by f x xs = x # xs"
    using Cons.prems by (cases xs) auto
  ultimately show ?case by simp
qed

lemma sorted_wrt_unique:
  assumes anti: "\<forall>a\<in>set xs. \<forall>b\<in>set xs. R a b \<longrightarrow> R b a \<longrightarrow> a = b"
    and "sorted_wrt R xs" "sorted_wrt R ys" "mset xs = mset ys"
  shows "xs = ys"
  using assms
proof (induction xs arbitrary: ys)
  case Nil
  then show ?case by simp
next
  case (Cons x xs)
  from Cons.prems(4) obtain y ys' where ys: "ys = y # ys'" by (cases ys) auto
  have sets: "set (x # xs) = set ys" using Cons.prems(4) by (metis set_mset_mset)
  have "x = y"
  proof (rule ccontr)
    assume ne: "x \<noteq> y"
    then have "x \<in> set ys'" "y \<in> set xs" using sets ys by auto
    then have "R y x" "R x y" using Cons.prems(2,3) ys by auto
    moreover have "y \<in> set (x # xs)" "x \<in> set (x # xs)" using sets ys by auto
    ultimately show False using Cons.prems(1) ne by blast
  qed
  then have "mset xs = mset ys'" using Cons.prems(4) ys by simp
  moreover have "sorted_wrt R xs" "sorted_wrt R ys'" using Cons.prems ys by auto
  moreover have "\<forall>a\<in>set xs. \<forall>b\<in>set xs. R a b \<longrightarrow> R b a \<longrightarrow> a = b"
    using Cons.prems(1) by simp
  ultimately have "xs = ys'" by (intro Cons.IH)
  with \<open>x = y\<close> ys show ?case by simp
qed

subsection \<open>Sorting and re-appending the rows\<close>

lemma foldl_appendChild:
  "distinct (map node_id ys) \<Longrightarrow>
   foldl appendChild cs ys = filter (\<lambda>c. node_id c \<notin> node_id ` set ys) cs @ ys"
proof (induction ys arbitrary: cs)
  case Nil
  then show ?case by simp
next
  case (Cons y ys)
  then show ?case by (auto simp: appendChild_def filter_empty_conv)
qed

lemma rebuild_sorted:
  assumes "distinct_nodes rows" "mset sorted_rows = mset rows"
  shows "foldl appendChild rows sorted_rows = sorted_rows"
proof -
  have "mset (map node_id sorted_rows) = mset (map node_id rows)"
    using assms(2) by simp
  then have d: "distinct (map node_id sorted_rows)"
    using assms(1) unfolding distinct_nodes_def by (metis mset_eq_imp_distinct_iff)
  have "set sorted_rows = set rows" using assms(2) by (metis set_mset_mset)
  then have "filter (\<lambda>c. node_id c \<notin> node_id ` set sorted_rows) rows = []"
    by (simp add: filter_empty_conv)
  with foldl_appendChild [OF d] show ?thesis by simp
qed

lemma comparator_pure:
  "column < length (cells a) \<Longrightarrow> column < length (cells b) \<Longrightarrow>
   comparator lc column isAscending a b = Inr (row_compare lc column isAscending a b)"
  by (simp add: comparator_def cell_value_def row_key_def row_compare_def)

lemma array_sort_rows:
  assumes "has_column column rows"
  shows "array_sort (comparator lc column isAscending) rows
         = Inr (sort_by (row_compare lc column isAscending) rows)"
proof -
  have "\<forall>x\<in>set rows. \<forall>y\<in>set rows.
          comparator lc column isAscending x y = Inr (row_compare lc column isAscending x y)"
    using assms by (simp add: has_column_def list_all_iff comparator_pure)
  then show ?thesis by (rule array_sort_pure)
qed

lemma sort_and_rebuild_rows:
  assumes "has_column column rows" "distinct_nodes rows"
  shows "sort_and_rebuild lc column isAscending rows
         = Inr (sort_by (row_compare lc column isAscending) rows)"
proof -
  have "foldl appendChild rows (sort_by (row_compare lc column isAscending) rows)
        = sort_by (row_compare lc column isAscending) rows"
    using assms(2) by (rule rebuild_sorted) (simp add: mset_sort_by)
  then show ?thesis
    by (simp add: sort_and_rebuild_def array_sort_rows [OF assms(1)])
qed

lemma sort_and_rebuild_sorted:
  assumes "distinct_nodes rows" "sort_and_rebuild lc column isAscending rows = Inr rows'"
  shows "array_sort (comparator lc column isAscending) rows = Inr rows'"
proof -
  from assms(2) obtain ys where ys: "array_sort (comparator lc column isAscending) rows = Inr ys"
    and r: "rows' = foldl appendChild rows ys"
    by (auto simp: sort_and_rebuild_def split: sum.splits)
  from ys have "mset ys = mset rows" by (rule mset_array_sort)
  with assms(1) have "foldl appendChild rows ys = ys" by (rule rebuild_sorted)
  with ys r show ?thesis by simp
qed

lemma sort_and_rebuild_mset:
  assumes "distinct_nodes rows" "sort_and_rebuild lc column isAscending rows = Inr rows'"
  shows "mset rows' = mset rows"
  using sort_and_rebuild_sorted [OF assms] by (rule mset_array_sort)

lemma consistent_total:
  assumes "consistent_comparator lc"
  shows "lc a b \<le> 0 \<or> lc b a \<le> 0"
proof (cases "lc a b \<le> 0")
  case True
  then show ?thesis by simp
next
  case False
  then have "0 < lc a b" by simp
  with assms have "lc b a < 0" by (simp add: consistent_comparator_def)
  then show ?thesis by simp
qed

lemma consistent_trans:
  assumes "consistent_comparator lc" "lc a b \<le> 0" "lc b c \<le> 0"
  shows "lc a c \<le> 0"
  using assms unfolding consistent_comparator_def by blast

lemma row_compare_total:
  assumes "consistent_comparator lc"
  shows "\<forall>a b. row_compare lc column asc a b \<le> 0 \<or> row_compare lc column asc b a \<le> 0"
  using consistent_total [OF assms] by (simp add: row_compare_def)

lemma row_compare_trans:
  assumes "consistent_comparator lc"
  shows "\<forall>a b c. row_compare lc column asc a b \<le> 0 \<longrightarrow> row_compare lc column asc b c \<le> 0
      \<longrightarrow> row_compare lc column asc a c \<le> 0"
proof (intro allI impI)
  fix a b c
  assume ab: "row_compare lc column asc a b \<le> 0" and bc: "row_compare lc column asc b c \<le> 0"
  show "row_compare lc column asc a c \<le> 0"
  proof (cases asc)
    case True
    with ab bc have "lc (row_key column c) (row_key column b) \<le> 0"
      "lc (row_key column b) (row_key column a) \<le> 0"
      by (simp_all add: row_compare_def)
    then have "lc (row_key column c) (row_key column a) \<le> 0"
      by (rule consistent_trans [OF assms])
    with True show ?thesis by (simp add: row_compare_def)
  next
    case False
    with ab bc have "lc (row_key column a) (row_key column b) \<le> 0"
      "lc (row_key column b) (row_key column c) \<le> 0"
      by (simp_all add: row_compare_def)
    then have "lc (row_key column a) (row_key column c) \<le> 0"
      by (rule consistent_trans [OF assms])
    with False show ?thesis by (simp add: row_compare_def)
  qed
qed

lemma sort_by_reverse:
  assumes c: "consistent_comparator lc"
    and k: "no_ties lc column rows"
  shows "sort_by (row_compare lc column True) (sort_by (row_compare lc column False) rows)
         = rev (sort_by (row_compare lc column False) rows)"
proof -
  let ?asc = "sort_by (row_compare lc column False) rows"
  let ?R = "\<lambda>a b. row_compare lc column True a b \<le> 0"
  have s1: "sorted_wrt ?R (sort_by (row_compare lc column True) ?asc)"
    using row_compare_total [OF c] row_compare_trans [OF c] by (rule sorted_sort_by)
  have "sorted_wrt (\<lambda>a b. row_compare lc column False a b \<le> 0) ?asc"
    using row_compare_total [OF c] row_compare_trans [OF c] by (rule sorted_sort_by)
  moreover have "(\<lambda>a b. row_compare lc column False a b \<le> 0) = (\<lambda>a b. ?R b a)"
    by (simp add: fun_eq_iff row_compare_def)
  ultimately have s2: "sorted_wrt ?R (rev ?asc)"
    by (simp add: sorted_wrt_rev)
  have m: "mset (sort_by (row_compare lc column True) ?asc) = mset (rev ?asc)"
    by (simp add: mset_sort_by)
  have anti: "\<forall>a\<in>set (sort_by (row_compare lc column True) ?asc).
              \<forall>b\<in>set (sort_by (row_compare lc column True) ?asc). ?R a b \<longrightarrow> ?R b a \<longrightarrow> a = b"
  proof (intro ballI impI)
    fix a b
    assume "a \<in> set (sort_by (row_compare lc column True) ?asc)"
      and "b \<in> set (sort_by (row_compare lc column True) ?asc)"
    then have ab: "a \<in> set rows" "b \<in> set rows" by (simp_all add: set_sort_by)
    assume "?R a b" "?R b a"
    then have le: "lc (row_key column b) (row_key column a) \<le> 0"
      "lc (row_key column a) (row_key column b) \<le> 0"
      by (simp_all add: row_compare_def)
    show "a = b"
    proof (rule ccontr)
      assume "a \<noteq> b"
      with k ab have "lc (row_key column a) (row_key column b) \<noteq> 0"
        by (simp add: no_ties_def)
      with le(2) have "lc (row_key column a) (row_key column b) < 0" by simp
      with c have "0 < lc (row_key column b) (row_key column a)"
        by (simp add: consistent_comparator_def)
      with le(1) show False by simp
    qed
  qed
  from anti s1 s2 m show ?thesis by (rule sorted_wrt_unique)
qed

subsection \<open>The click handler, step by step\<close>

lemma click_no_table:
  "closest_table (sortableHeaders p ! i) = None \<Longrightarrow> click lc p i = (p, Some TypeError)"
  by (simp add: click_def)

lemma click_no_tbody:
  "closest_table (sortableHeaders p ! i) = Some t \<Longrightarrow> tbody_rows p t = None \<Longrightarrow>
   click lc p i = (p, Some TypeError)"
  by (simp add: click_def)

lemma click_headers:
  assumes "closest_table (sortableHeaders p ! i) = Some t" "tbody_rows p t = Some rows"
  shows "sortableHeaders (fst (click lc p i)) =
         update_classes i (contains (classList (sortableHeaders p ! i)) ''sort-asc'') (sortableHeaders p)"
  using assms by (simp add: click_def Let_def split: sum.splits)

lemma click_sorted:
  assumes "closest_table (sortableHeaders p ! i) = Some t" "tbody_rows p t = Some rows"
    and "sort_and_rebuild lc (column_index (sortableHeaders p ! i))
           (contains (classList (sortableHeaders p ! i)) ''sort-asc'') rows = Inr rows'"
  shows "snd (click lc p i) = None"
    and "tbody_rows (fst (click lc p i)) = (tbody_rows p)(t := Some rows')"
  using assms by (simp_all add: click_def Let_def)

lemma click_raised:
  assumes "closest_table (sortableHeaders p ! i) = Some t" "tbody_rows p t = Some rows"
    and "sort_and_rebuild lc (column_index (sortableHeaders p ! i))
           (contains (classList (sortableHeaders p ! i)) ''sort-asc'') rows = Inl e"
  shows "snd (click lc p i) = Some e"
    and "tbody_rows (fst (click lc p i)) = tbody_rows p"
  using assms by (simp_all add: click_def Let_def)

lemma length_update_classes: "length (update_classes i asc hs) = length hs"
  by (simp add: update_classes_def Let_def)

lemma update_classes_this:
  "i < length hs \<Longrightarrow>
   update_classes i asc hs ! i =
     add_class (if asc then ''sort-desc'' else ''sort-asc'') (remove_sort_classes (hs ! i))"
  by (simp add: update_classes_def Let_def)

lemma update_classes_other:
  "j < length hs \<Longrightarrow> j \<noteq> i \<Longrightarrow> update_classes i asc hs ! j = remove_sort_classes (hs ! j)"
  by (simp add: update_classes_def Let_def)

lemma markers_removed: "markers (remove_sort_classes h) = []"
  by (auto simp: markers_def remove_sort_classes_def filter_empty_conv)

lemma markers_added:
  "tok = ''sort-asc'' \<or> tok = ''sort-desc'' \<Longrightarrow>
   markers (add_class tok (remove_sort_classes h)) = [tok]"
  by (auto simp: markers_def add_class_def remove_sort_classes_def filter_empty_conv)

lemma marker_added:
  "marker (add_class (if asc then ''sort-desc'' else ''sort-asc'') (remove_sort_classes h))
   = new_direction asc"
  by (simp add: marker_def add_class_def remove_sort_classes_def contains_def new_direction_def)

lemma new_direction_toggled:
  "new_direction (contains (classList h) ''sort-asc'') = toggled (marker h)"
  by (simp add: new_direction_def marker_def)

lemma marker_Ascending: "marker h = Ascending \<longleftrightarrow> contains (classList h) ''sort-asc''"
  by (simp add: marker_def)

lemma header_fields_kept:
  "i < length hs \<Longrightarrow> closest_table (update_classes i asc hs ! i) = closest_table (hs ! i)"
  "i < length hs \<Longrightarrow> column_index (update_classes i asc hs ! i) = column_index (hs ! i)"
  by (simp_all add: update_classes_this add_class_def remove_sort_classes_def)

lemma click_markers_this:
  assumes "i < length (sortableHeaders p)"
    and "closest_table (sortableHeaders p ! i) = Some t"
    and "tbody_rows p t = Some rows"
  shows "markers (sortableHeaders (fst (click lc p i)) ! i) =
         [if contains (classList (sortableHeaders p ! i)) ''sort-asc'' then ''sort-desc'' else ''sort-asc'']"
  using assms(1)
  by (simp add: click_headers [OF assms(2,3)] update_classes_this markers_added)

lemma click_marker:
  assumes "i < length (sortableHeaders p)"
    and "closest_table (sortableHeaders p ! i) = Some t"
    and "tbody_rows p t = Some rows"
  shows "marker (sortableHeaders (fst (click lc p i)) ! i)
         = new_direction (contains (classList (sortableHeaders p ! i)) ''sort-asc'')"
  using assms(1)
  by (simp add: click_headers [OF assms(2,3)] update_classes_this marker_added)

lemma click_header_kept:
  assumes "i < length (sortableHeaders p)"
    and "closest_table (sortableHeaders p ! i) = Some t"
    and "tbody_rows p t = Some rows"
  shows "closest_table (sortableHeaders (fst (click lc p i)) ! i) = Some t"
    and "column_index (sortableHeaders (fst (click lc p i)) ! i) = column_index (sortableHeaders p ! i)"
    and "length (sortableHeaders (fst (click lc p i))) = length (sortableHeaders p)"
  using assms(1,2)
  by (simp_all add: click_headers [OF assms(2,3)] header_fields_kept length_update_classes)

subsection \<open>The example page\<close>

lemma numeric_collation_decimal: "numeric_collation decimal_compare"
  by (simp add: numeric_collation_def decimal_compare_def)

lemma consistent_decimal: "consistent_comparator decimal_compare"
  by (simp add: consistent_comparator_def decimal_compare_def)

lemma demo_keys:
  "row_key 0 (mk_row 11 [''2'', ''b'']) = [50]"
  "row_key 0 (mk_row 12 ['' 10 '', ''a'']) = [49, 48]"
  "row_key 0 (mk_row 13 [''1'', ''c'']) = [49]"
  by (simp_all add: row_key_def mk_row_def js_def trim_def is_white_space_def)

lemma demo_rows_facts:
  "has_column 0 demo_rows" "distinct_nodes demo_rows"
  by (simp_all add: has_column_def distinct_nodes_def demo_rows_def mk_row_def)

lemma demo_rows_sorted:
  "sort_by (row_compare decimal_compare 0 False) demo_rows
   = [mk_row 13 [''1'', ''c''], mk_row 11 [''2'', ''b''], mk_row 12 ['' 10 '', ''a'']]"
  by (simp add: demo_rows_def row_compare_def demo_keys decimal_compare_def decimal_def)

lemma demo_rows_no_ties: "no_ties decimal_compare 0 demo_rows"
  by (simp add: no_ties_def demo_rows_def demo_keys decimal_compare_def decimal_def)

lemma numeric_rows_facts:
  "has_column 0 numeric_rows" "distinct_nodes numeric_rows"
  "numeric_rows = [mk_row 21 [''2''], mk_row 22 [''10''], mk_row 23 [''1'']]"
  "cells (mk_row 21 [''2'']) ! 0 = js ''2''"
  "cells (mk_row 22 [''10'']) ! 0 = js ''10''"
  "cells (mk_row 23 [''1'']) ! 0 = js ''1''"
  by (simp_all add: has_column_def distinct_nodes_def numeric_rows_def mk_row_def)

lemma demo_page_headers:
  "sortableHeaders demo_page ! 0 = plain_header (Some 0) 0"
  "sortableHeaders demo_page ! 5 = plain_header (Some 3) 0"
  "length (sortableHeaders demo_page) = 6"
  by (simp_all add: demo_page_def)

lemma demo_page_bodies:
  "tbody_rows demo_page 0 = Some demo_rows"
  "tbody_rows demo_page 3 = Some numeric_rows"
  by (simp_all add: demo_page_def)

lemma distinct_bodies_demo: "distinct_bodies demo_page"
  using demo_rows_facts(2) numeric_rows_facts(2)
  by (simp add: distinct_bodies_def demo_page_def distinct_nodes_def)

lemma tie_keys:
  "row_key 0 (mk_row 31 [''1'']) = [49]"
  "row_key 0 (mk_row 32 [''01'']) = [48, 49]"
  "row_key 0 (mk_row 33 [''0'']) = [48]"
  by (simp_all add: row_key_def mk_row_def js_def trim_def is_white_space_def)

lemma tie_rows_facts:
  "has_column 0 tie_rows" "distinct_nodes tie_rows" "pairwise_distinct_keys 0 tie_rows"
  by (simp_all add: has_column_def distinct_nodes_def pairwise_distinct_keys_def tie_rows_def
      tie_keys) (simp_all add: mk_row_def)

lemma tie_rows_ascending:
  "sort_by (row_compare decimal_compare 0 False) tie_rows
   = [mk_row 33 [''0''], mk_row 31 [''1''], mk_row 32 [''01'']]"
  by (simp add: tie_rows_def row_compare_def tie_keys decimal_compare_def decimal_def)

lemma tie_rows_descending:
  "sort_by (row_compare decimal_compare 0 True)
     [mk_row 33 [''0''], mk_row 31 [''1''], mk_row 32 [''01'']]
   = [mk_row 31 [''1''], mk_row 32 [''01''], mk_row 33 [''0'']]"
  by (simp add: row_compare_def tie_keys decimal_compare_def decimal_def)

lemma tie_page_facts:
  "(0::nat) < length (sortableHeaders tie_page)"
  "closest_table (sortableHeaders tie_page ! 0) = Some 0"
  "tbody_rows tie_page 0 = Some tie_rows"
  "column_index (sortableHeaders tie_page ! 0) = 0"
  "\<not> contains (classList (sortableHeaders tie_page ! 0)) ''sort-asc''"
  "marker (sortableHeaders tie_page ! 0) = Unset"
  by (simp_all add: tie_page_def plain_header_def contains_def marker_def)

subsection \<open>Splitting at the dots\<close>

lemma split_dot_not_Nil: "split_dot s \<noteq> []"
  by (induction s) auto

lemma length_split_dot: "length (split_dot s) = Suc (count_list s dot)"
  by (induction s) (auto simp: split_dot_not_Nil)

lemma hd_split_dot: "hd (split_dot s) = takeWhile (\<lambda>c. c \<noteq> dot) s"
  by (induction s) auto

lemma concat_split_dot: "concat (split_dot s) = filter (\<lambda>c. c \<noteq> dot) s"
proof (induction s)
  case Nil
  then show ?case by simp
next
  case (Cons c cs)
  show ?case
  proof (cases "c = dot")
    case True
    with Cons show ?thesis by simp
  next
    case False
    have "concat (split_dot cs) = hd (split_dot cs) @ concat (tl (split_dot cs))"
      using split_dot_not_Nil [of cs] by (cases "split_dot cs") auto
    with False Cons show ?thesis by simp
  qed
qed

lemma keep_first_dot_simps:
  "keep_first_dot [] = []"
  "keep_first_dot (c # cs) =
     (if c = dot then dot # filter (\<lambda>c. c \<noteq> dot) cs else c # keep_first_dot cs)"
  by (simp_all add: keep_first_dot_def)

lemma count_filter_dot: "count_list (filter (\<lambda>c. c \<noteq> dot) xs) dot = 0"
  by (simp add: count_list_0_iff)

lemma rejoin_split_dot':
  "dot \<in> set s \<Longrightarrow> hd (split_dot s) @ [dot] @ concat (tl (split_dot s)) = keep_first_dot s"
proof (induction s)
  case Nil
  then show ?case by simp
next
  case (Cons c cs)
  show ?case
  proof (cases "c = dot")
    case True
    then show ?thesis by (simp add: keep_first_dot_simps concat_split_dot)
  next
    case False
    with Cons show ?thesis by (simp add: keep_first_dot_simps)
  qed
qed

lemma rejoin_split_dot:
  assumes "2 < length (split_dot s)"
  shows "hd (split_dot s) @ [dot] @ concat (tl (split_dot s)) = keep_first_dot s"
proof -
  from assms have "count_list s dot \<noteq> 0" by (simp add: length_split_dot)
  then have "dot \<in> set s" by (simp add: count_list_0_iff)
  then show ?thesis by (rule rejoin_split_dot')
qed

lemma keep_first_dot_id: "count_list s dot \<le> 1 \<Longrightarrow> keep_first_dot s = s"
proof (induction s)
  case Nil
  then show ?case by (simp add: keep_first_dot_simps)
next
  case (Cons c cs)
  show ?case
  proof (cases "c = dot")
    case True
    with Cons.prems have "count_list cs dot = 0" by simp
    then have "dot \<notin> set cs" by (simp add: count_list_0_iff)
    then have "filter (\<lambda>c. c \<noteq> dot) cs = cs" by (auto simp: filter_id_conv)
    with True show ?thesis by (simp add: keep_first_dot_simps)
  next
    case False
    with Cons show ?thesis by (simp add: keep_first_dot_simps)
  qed
qed

lemma keep_first_dot_few:
  assumes "\<not> 2 < length (split_dot s)"
  shows "keep_first_dot s = s"
proof -
  from assms have "count_list s dot \<le> 1" by (simp add: length_split_dot)
  then show ?thesis by (rule keep_first_dot_id)
qed

lemma keep_first_dot_count: "count_list (keep_first_dot s) dot \<le> 1"
  by (induction s) (simp_all add: keep_first_dot_simps count_filter_dot)

lemma keep_first_dot_subset: "set (keep_first_dot s) \<subseteq> set s"
  by (induction s) (auto simp: keep_first_dot_simps)

lemma handler_cases:
  "number_input_handler valid v = keep_first_dot (strip_non_numeric v)
   \<or> number_input_handler valid v = []"
proof (cases "valid (strip_non_numeric v)")
  case False
  then show ?thesis by (simp add: number_input_handler_def set_value_def)
next
  case True
  show ?thesis
  proof (cases "2 < length (split_dot (strip_non_numeric v))")
    case many: True
    with True rejoin_split_dot [OF many] show ?thesis
      by (simp add: number_input_handler_def set_value_def Let_def)
  next
    case few: False
    with True keep_first_dot_few [OF few] show ?thesis
      by (simp add: number_input_handler_def set_value_def Let_def)
  qed
qed

lemma handler_keeps_all:
  "number_input_handler (\<lambda>_. True) v = keep_first_dot (strip_non_numeric v)"
proof (cases "2 < length (split_dot (strip_non_numeric v))")
  case True
  with rejoin_split_dot [OF True] show ?thesis
    by (simp add: number_input_handler_def set_value_def Let_def)
next
  case False
  with keep_first_dot_few [OF False] show ?thesis
    by (simp add: number_input_handler_def set_value_def Let_def)
qed

section \<open>The claims of the specification\<close>

subsection \<open>The comparison function\<close>

text \<open>
  C1. For two rows that have a cell in the clicked column, the comparison function
  takes the trimmed text of that cell in each row and hands both to the collation; the
  operand order follows the direction the click resolves to: first row against second
  when the new direction is ascending, second against first when it is descending.
\<close>

theorem comparator_operand_order:
  assumes "column < length (cells a)" and "column < length (cells b)"
  shows "comparator lc column isAscending a b =
     Inr (case new_direction isAscending of
            Descending \<Rightarrow> lc (trim (cells b ! column)) (trim (cells a ! column))
          | _ \<Rightarrow> lc (trim (cells a ! column)) (trim (cells b ! column)))"
  using assms by (simp add: comparator_def cell_value_def new_direction_def)

theorem comparator_operand_order_witness:
  "(0::nat) < length (cells (mk_row 11 [''2'', ''b'']))
   \<and> (0::nat) < length (cells (mk_row 12 ['' 10 '', ''a'']))
   \<and> comparator decimal_compare 0 False (mk_row 11 [''2'', ''b'']) (mk_row 12 ['' 10 '', ''a'']) = Inr (- 8)
   \<and> comparator decimal_compare 0 True (mk_row 11 [''2'', ''b'']) (mk_row 12 ['' 10 '', ''a'']) = Inr 8"
proof -
  have a: "(0::nat) < length (cells (mk_row 11 [''2'', ''b'']))"
    and b: "(0::nat) < length (cells (mk_row 12 ['' 10 '', ''a'']))"
    by (simp_all add: mk_row_def)
  have k: "trim (cells (mk_row 11 [''2'', ''b'']) ! 0) = [50]"
    "trim (cells (mk_row 12 ['' 10 '', ''a'']) ! 0) = [49, 48]"
    using demo_keys by (simp_all add: row_key_def)
  show ?thesis
    using a b comparator_operand_order [OF a b, of decimal_compare False]
      comparator_operand_order [OF a b, of decimal_compare True]
    by (simp add: k new_direction_def decimal_compare_def decimal_def)
qed

subsection \<open>Numeric text\<close>

text \<open>
  C2. A column with the cell texts "2", "10", "1", sorted ascending under a collation
  that compares numerals of one or two digits by value, comes out as "1", "2", "10",
  and not in the lexical order "1", "10", "2".
\<close>

theorem numeric_column_ascending:
  assumes "numeric_collation lc"
    and "i < length (sortableHeaders p)"
    and "closest_table (sortableHeaders p ! i) = Some t"
    and "\<not> contains (classList (sortableHeaders p ! i)) ''sort-asc''"
    and "tbody_rows p t = Some [r2, r10, r1]"
    and "distinct_nodes [r2, r10, r1]"
    and "has_column (column_index (sortableHeaders p ! i)) [r2, r10, r1]"
    and "cells r2 ! column_index (sortableHeaders p ! i) = js ''2''"
    and "cells r10 ! column_index (sortableHeaders p ! i) = js ''10''"
    and "cells r1 ! column_index (sortableHeaders p ! i) = js ''1''"
  shows "snd (click lc p i) = None
     \<and> tbody_rows (fst (click lc p i)) t = Some [r1, r2, r10]
     \<and> tbody_rows (fst (click lc p i)) t \<noteq> Some [r1, r10, r2]"
proof -
  let ?col = "column_index (sortableHeaders p ! i)"
  have keys: "row_key ?col r2 = [50]" "row_key ?col r10 = [49, 48]" "row_key ?col r1 = [49]"
    using assms(8,9,10) by (simp_all add: row_key_def js_def trim_def is_white_space_def)
  have num: "numeral_text [50]" "numeral_text [49, 48]" "numeral_text [49]"
    by (simp_all add: numeral_text_def is_digit_def)
  have dec: "decimal [50] = 2" "decimal [49, 48] = 10" "decimal [49] = 1"
    by (simp_all add: decimal_def)
  have c1: "0 < lc [49, 48] [49]" and c2: "0 < lc [50] [49]" and c3: "lc [50] [49, 48] < 0"
    using assms(1) num dec unfolding numeric_collation_def by simp_all
  have "sort_by (row_compare lc ?col False) [r2, r10, r1] = [r1, r2, r10]"
    using c1 c2 c3 by (simp add: row_compare_def keys)
  with sort_and_rebuild_rows [OF assms(7,6), of lc False] assms(4)
  have "sort_and_rebuild lc ?col (contains (classList (sortableHeaders p ! i)) ''sort-asc'') [r2, r10, r1]
        = Inr [r1, r2, r10]"
    by simp
  note r = click_sorted [OF assms(3,5) this]
  have "r2 \<noteq> r10" using assms(6) by (auto simp: distinct_nodes_def)
  with r show ?thesis by simp
qed

theorem numeric_column_ascending_witness:
  "numeric_collation decimal_compare
   \<and> (5::nat) < length (sortableHeaders demo_page)
   \<and> closest_table (sortableHeaders demo_page ! 5) = Some 3
   \<and> \<not> contains (classList (sortableHeaders demo_page ! 5)) ''sort-asc''
   \<and> tbody_rows demo_page 3 = Some [mk_row 21 [''2''], mk_row 22 [''10''], mk_row 23 [''1'']]
   \<and> snd (click decimal_compare demo_page 5) = None
   \<and> tbody_rows (fst (click decimal_compare demo_page 5)) 3
       = Some [mk_row 23 [''1''], mk_row 21 [''2''], mk_row 22 [''10'']]"
proof -
  have h: "closest_table (sortableHeaders demo_page ! 5) = Some 3"
    "\<not> contains (classList (sortableHeaders demo_page ! 5)) ''sort-asc''"
    "column_index (sortableHeaders demo_page ! 5) = 0"
    by (simp_all add: demo_page_headers plain_header_def contains_def)
  have b: "tbody_rows demo_page 3 = Some [mk_row 21 [''2''], mk_row 22 [''10''], mk_row 23 [''1'']]"
    using demo_page_bodies(2) numeric_rows_facts(3) by simp
  have d: "distinct_nodes [mk_row 21 [''2''], mk_row 22 [''10''], mk_row 23 [''1'']]"
    and c: "has_column (column_index (sortableHeaders demo_page ! 5))
              [mk_row 21 [''2''], mk_row 22 [''10''], mk_row 23 [''1'']]"
    using numeric_rows_facts(1,2,3) h(3) by simp_all
  have t: "cells (mk_row 21 [''2'']) ! column_index (sortableHeaders demo_page ! 5) = js ''2''"
    "cells (mk_row 22 [''10'']) ! column_index (sortableHeaders demo_page ! 5) = js ''10''"
    "cells (mk_row 23 [''1'']) ! column_index (sortableHeaders demo_page ! 5) = js ''1''"
    using numeric_rows_facts(4,5,6) h(3) by simp_all
  have l: "(5::nat) < length (sortableHeaders demo_page)"
    by (simp add: demo_page_headers)
  from numeric_column_ascending [OF numeric_collation_decimal l h(1,2) b d c t]
    numeric_collation_decimal l h(1,2) b
  show ?thesis by simp
qed

subsection \<open>Headers without a table or without a body\<close>

text \<open>
  C3. The specification wants a click on a sortable header that has no enclosing
  table, or whose table has no body, to do nothing and to raise nothing. The handler
  reads \<^verbatim>\<open>table.querySelector\<close> and \<^verbatim>\<open>tbody.querySelectorAll\<close> without a test
  for \<^verbatim>\<open>null\<close>, unlike the handlers next to it: on the third header of the example
  page (no table) and on the fourth (a table without a body) the click raises a
  \<^verbatim>\<open>TypeError\<close>, and leaves the page as it was.
\<close>

theorem click_without_table_or_body_raises:
  "click lc demo_page 2 = (demo_page, Some TypeError)
   \<and> click lc demo_page 3 = (demo_page, Some TypeError)"
proof -
  have "closest_table (sortableHeaders demo_page ! 2) = None"
    by (simp add: demo_page_def plain_header_def)
  moreover have "closest_table (sortableHeaders demo_page ! 3) = Some 1" "tbody_rows demo_page 1 = None"
    by (simp_all add: demo_page_def plain_header_def)
  ultimately show ?thesis
    by (simp add: click_no_table click_no_tbody)
qed

subsection \<open>Direction markers\<close>

text \<open>
  C4. After a click on a sortable header that has a table with a body, the clicked
  header carries exactly one direction marker, ascending or descending, and every
  other sortable header carries none: the handler clears the markers of all sortable
  headers before it sets its own.
\<close>

theorem single_active_marker:
  assumes "i < length (sortableHeaders p)"
    and "closest_table (sortableHeaders p ! i) = Some t"
    and "tbody_rows p t = Some rows"
  shows "length (sortableHeaders (fst (click lc p i))) = length (sortableHeaders p)
     \<and> (markers (sortableHeaders (fst (click lc p i)) ! i) = [''sort-asc'']
        \<or> markers (sortableHeaders (fst (click lc p i)) ! i) = [''sort-desc''])
     \<and> (\<forall>j < length (sortableHeaders p). j \<noteq> i \<longrightarrow>
           markers (sortableHeaders (fst (click lc p i)) ! j) = [])"
  using assms
  by (simp add: click_headers [OF assms(2,3)] length_update_classes update_classes_this
      update_classes_other markers_removed markers_added)

theorem single_active_marker_witness:
  "(0::nat) < length (sortableHeaders demo_page)
   \<and> closest_table (sortableHeaders demo_page ! 0) = Some 0
   \<and> tbody_rows demo_page 0 = Some demo_rows
   \<and> markers (sortableHeaders demo_page ! 1) = [''sort-desc'']
   \<and> markers (sortableHeaders (fst (click decimal_compare demo_page 0)) ! 0) = [''sort-asc'']
   \<and> markers (sortableHeaders (fst (click decimal_compare demo_page 0)) ! 1) = []"
proof -
  have h: "(0::nat) < length (sortableHeaders demo_page)"
    "closest_table (sortableHeaders demo_page ! 0) = Some 0"
    "tbody_rows demo_page 0 = Some demo_rows"
    by (simp_all add: demo_page_def plain_header_def)
  have before: "markers (sortableHeaders demo_page ! 1) = [''sort-desc'']"
    by (simp add: demo_page_def plain_header_def markers_def)
  have len: "(1::nat) < length (sortableHeaders demo_page)"
    by (simp add: demo_page_def)
  have "\<not> contains (classList (sortableHeaders demo_page ! 0)) ''sort-asc''"
    by (simp add: demo_page_def plain_header_def contains_def)
  with click_markers_this [OF h, of decimal_compare]
  have this_one: "markers (sortableHeaders (fst (click decimal_compare demo_page 0)) ! 0) = [''sort-asc'']"
    by simp
  from single_active_marker [OF h, of decimal_compare] len
  have "markers (sortableHeaders (fst (click decimal_compare demo_page 0)) ! 1) = []"
    by simp
  with h before this_one show ?thesis by simp
qed

text \<open>
  C5. The marker a click leaves on the header is the opposite of the one the header
  carried before: unset and descending become ascending, ascending becomes descending.
\<close>

theorem direction_toggles:
  assumes "i < length (sortableHeaders p)"
    and "closest_table (sortableHeaders p ! i) = Some t"
    and "tbody_rows p t = Some rows"
  shows "marker (sortableHeaders (fst (click lc p i)) ! i) = toggled (marker (sortableHeaders p ! i))"
  using assms(1)
  by (simp add: click_headers [OF assms(2,3)] update_classes_this marker_added new_direction_toggled)

theorem direction_toggles_witness:
  "(1::nat) < length (sortableHeaders demo_page)
   \<and> closest_table (sortableHeaders demo_page ! 1) = Some 0
   \<and> tbody_rows demo_page 0 = Some demo_rows
   \<and> marker (sortableHeaders demo_page ! 1) = Descending
   \<and> marker (sortableHeaders (fst (click decimal_compare demo_page 1)) ! 1) = Ascending"
proof -
  have h: "(1::nat) < length (sortableHeaders demo_page)"
    "closest_table (sortableHeaders demo_page ! 1) = Some 0"
    "tbody_rows demo_page 0 = Some demo_rows"
    by (simp_all add: demo_page_def plain_header_def)
  have before: "marker (sortableHeaders demo_page ! 1) = Descending"
    by (simp add: demo_page_def plain_header_def marker_def contains_def)
  with direction_toggles [OF h, of decimal_compare] h show ?thesis
    by simp
qed

subsection \<open>Two clicks on the same header\<close>

text \<open>
  C6. On a table whose rows all have the cell and whose keys the collation tells apart
  (no two rows compare equal), a click that sorts the column ascending followed at
  once by a click on the same header leaves the rows in descending order, and that
  sequence of rows is exactly the reverse of the ascending one. Keys that are only
  distinct as texts are not enough: see the table of "1", "01", "0" below.
\<close>

theorem second_click_reverses:
  assumes "consistent_comparator lc"
    and "i < length (sortableHeaders p)"
    and "closest_table (sortableHeaders p ! i) = Some t"
    and "tbody_rows p t = Some rows"
    and "\<not> contains (classList (sortableHeaders p ! i)) ''sort-asc''"
    and "has_column (column_index (sortableHeaders p ! i)) rows"
    and "distinct_nodes rows"
    and "no_ties lc (column_index (sortableHeaders p ! i)) rows"
  shows "\<exists>asc.
           snd (click lc p i) = None
         \<and> marker (sortableHeaders (fst (click lc p i)) ! i) = Ascending
         \<and> tbody_rows (fst (click lc p i)) t = Some asc
         \<and> sorted_wrt (ascending_order lc (column_index (sortableHeaders p ! i))) asc
         \<and> snd (click lc (fst (click lc p i)) i) = None
         \<and> marker (sortableHeaders (fst (click lc (fst (click lc p i)) i)) ! i) = Descending
         \<and> tbody_rows (fst (click lc (fst (click lc p i)) i)) t = Some (rev asc)
         \<and> sorted_wrt (descending_order lc (column_index (sortableHeaders p ! i))) (rev asc)"
proof -
  let ?col = "column_index (sortableHeaders p ! i)"
  let ?asc = "sort_by (row_compare lc ?col False) rows"
  let ?p1 = "fst (click lc p i)"
  have first: "sort_and_rebuild lc ?col (contains (classList (sortableHeaders p ! i)) ''sort-asc'') rows
               = Inr ?asc"
    using assms(5) sort_and_rebuild_rows [OF assms(6,7), of lc False] by simp
  note r1 = click_sorted [OF assms(3,4) first]
  have m1: "marker (sortableHeaders ?p1 ! i) = Ascending"
    using click_marker [OF assms(2,3,4), of lc] assms(5) by (simp add: new_direction_def)
  have srt: "sorted_wrt (\<lambda>a b. row_compare lc ?col False a b \<le> 0) ?asc"
    using row_compare_total [OF assms(1)] row_compare_trans [OF assms(1)] by (rule sorted_sort_by)
  have asc_eq: "(\<lambda>a b. row_compare lc ?col False a b \<le> 0) = ascending_order lc ?col"
    by (simp add: fun_eq_iff row_compare_def ascending_order_def)
  have desc_eq: "(\<lambda>a b. row_compare lc ?col False a b \<le> 0)
                 = (\<lambda>a b. descending_order lc ?col b a)"
    by (simp add: fun_eq_iff row_compare_def descending_order_def)
  have s_asc: "sorted_wrt (ascending_order lc ?col) ?asc"
    using srt asc_eq by simp
  have s_desc: "sorted_wrt (descending_order lc ?col) (rev ?asc)"
    using srt unfolding desc_eq by (simp add: sorted_wrt_rev)
  have len1: "i < length (sortableHeaders ?p1)"
    and tab1: "closest_table (sortableHeaders ?p1 ! i) = Some t"
    and col1: "column_index (sortableHeaders ?p1 ! i) = ?col"
    using click_header_kept [OF assms(2,3,4), of lc] assms(2) by simp_all
  have body1: "tbody_rows ?p1 t = Some ?asc"
    using r1(2) by simp
  have asc1: "contains (classList (sortableHeaders ?p1 ! i)) ''sort-asc''"
    using m1 by (simp add: marker_Ascending)
  have hc: "has_column ?col ?asc"
    using assms(6) by (simp add: has_column_def list_all_iff set_sort_by)
  have "mset (map node_id ?asc) = mset (map node_id rows)"
    by (simp add: mset_sort_by)
  then have dn: "distinct_nodes ?asc"
    using assms(7) unfolding distinct_nodes_def by (metis mset_eq_imp_distinct_iff)
  have second: "sort_and_rebuild lc (column_index (sortableHeaders ?p1 ! i))
                  (contains (classList (sortableHeaders ?p1 ! i)) ''sort-asc'') ?asc = Inr (rev ?asc)"
    using sort_and_rebuild_rows [OF hc dn, of lc True] sort_by_reverse [OF assms(1,8)] asc1 col1
    by simp
  note r2 = click_sorted [OF tab1 body1 second]
  have m2: "marker (sortableHeaders (fst (click lc ?p1 i)) ! i) = Descending"
    using click_marker [OF len1 tab1 body1, of lc] asc1 by (simp add: new_direction_def)
  have body2: "tbody_rows (fst (click lc ?p1 i)) t = Some (rev ?asc)"
    using r2(2) by simp
  from r1(1) m1 body1 s_asc r2(1) m2 body2 s_desc show ?thesis by blast
qed

theorem second_click_reverses_witness:
  "consistent_comparator decimal_compare
   \<and> (0::nat) < length (sortableHeaders demo_page)
   \<and> closest_table (sortableHeaders demo_page ! 0) = Some 0
   \<and> tbody_rows demo_page 0 = Some demo_rows
   \<and> \<not> contains (classList (sortableHeaders demo_page ! 0)) ''sort-asc''
   \<and> has_column (column_index (sortableHeaders demo_page ! 0)) demo_rows
   \<and> distinct_nodes demo_rows
   \<and> no_ties decimal_compare (column_index (sortableHeaders demo_page ! 0)) demo_rows
   \<and> tbody_rows (fst (click decimal_compare demo_page 0)) 0
       = Some [mk_row 13 [''1'', ''c''], mk_row 11 [''2'', ''b''], mk_row 12 ['' 10 '', ''a'']]
   \<and> tbody_rows (fst (click decimal_compare (fst (click decimal_compare demo_page 0)) 0)) 0
       = Some [mk_row 12 ['' 10 '', ''a''], mk_row 11 [''2'', ''b''], mk_row 13 [''1'', ''c'']]
   \<and> marker (sortableHeaders (fst (click decimal_compare (fst (click decimal_compare demo_page 0)) 0)) ! 0)
       = Descending"
proof -
  have h: "(0::nat) < length (sortableHeaders demo_page)"
    "closest_table (sortableHeaders demo_page ! 0) = Some 0"
    "tbody_rows demo_page 0 = Some demo_rows"
    "\<not> contains (classList (sortableHeaders demo_page ! 0)) ''sort-asc''"
    by (simp_all add: demo_page_headers demo_page_bodies plain_header_def contains_def)
  have col: "column_index (sortableHeaders demo_page ! 0) = 0"
    by (simp add: demo_page_headers plain_header_def)
  have r: "has_column (column_index (sortableHeaders demo_page ! 0)) demo_rows"
    "distinct_nodes demo_rows"
    "no_ties decimal_compare (column_index (sortableHeaders demo_page ! 0)) demo_rows"
    using demo_rows_facts demo_rows_no_ties col by simp_all
  have "sort_and_rebuild decimal_compare (column_index (sortableHeaders demo_page ! 0))
          (contains (classList (sortableHeaders demo_page ! 0)) ''sort-asc'') demo_rows
        = Inr [mk_row 13 [''1'', ''c''], mk_row 11 [''2'', ''b''], mk_row 12 ['' 10 '', ''a'']]"
    using sort_and_rebuild_rows [OF demo_rows_facts, of decimal_compare False] h(4) col
    by (simp add: demo_rows_sorted)
  from click_sorted(2) [OF h(2,3) this]
  have first: "tbody_rows (fst (click decimal_compare demo_page 0)) 0
       = Some [mk_row 13 [''1'', ''c''], mk_row 11 [''2'', ''b''], mk_row 12 ['' 10 '', ''a'']]"
    by simp
  from second_click_reverses [OF consistent_decimal h r]
  obtain asc where
    "tbody_rows (fst (click decimal_compare demo_page 0)) 0 = Some asc"
    "tbody_rows (fst (click decimal_compare (fst (click decimal_compare demo_page 0)) 0)) 0 = Some (rev asc)"
    "marker (sortableHeaders (fst (click decimal_compare (fst (click decimal_compare demo_page 0)) 0)) ! 0)
       = Descending"
    by blast
  with first consistent_decimal h r show ?thesis by simp
qed

text \<open>
  Keys that are distinct as texts can still compare equal. The cell texts "1", "01",
  "0" are pairwise distinct, and numeric collation holds "1" and "01" equal. The first
  click sorts them to "0", "1", "01"; the second leaves "1", "01", "0", where the two
  equal keys keep their order: this is not the reverse "01", "1", "0" of the ascending
  sequence.
\<close>

theorem distinct_texts_not_reversed:
  "consistent_comparator decimal_compare
   \<and> closest_table (sortableHeaders tie_page ! 0) = Some 0
   \<and> tbody_rows tie_page 0 = Some tie_rows
   \<and> has_column (column_index (sortableHeaders tie_page ! 0)) tie_rows
   \<and> pairwise_distinct_keys (column_index (sortableHeaders tie_page ! 0)) tie_rows
   \<and> marker (sortableHeaders tie_page ! 0) = Unset
   \<and> click decimal_compare tie_page 0 =
        (tie_page\<lparr>sortableHeaders := [(plain_header (Some 0) 0)\<lparr>classList := [''sortable'', ''sort-asc'']\<rparr>],
          tbody_rows := (tbody_rows tie_page)(0 := Some [mk_row 33 [''0''], mk_row 31 [''1''], mk_row 32 [''01'']])\<rparr>, None)
   \<and> tbody_rows (fst (click decimal_compare (fst (click decimal_compare tie_page 0)) 0)) 0
        = Some [mk_row 31 [''1''], mk_row 32 [''01''], mk_row 33 [''0'']]
   \<and> snd (click decimal_compare (fst (click decimal_compare tie_page 0)) 0) = None
   \<and> tbody_rows (fst (click decimal_compare (fst (click decimal_compare tie_page 0)) 0)) 0
        \<noteq> map_option rev (tbody_rows (fst (click decimal_compare tie_page 0)) 0)"
proof -
  let ?asc = "[mk_row 33 [''0''], mk_row 31 [''1''], mk_row 32 [''01'']]"
  let ?p1 = "fst (click decimal_compare tie_page 0)"
  have "sort_and_rebuild decimal_compare (column_index (sortableHeaders tie_page ! 0))
          (contains (classList (sortableHeaders tie_page ! 0)) ''sort-asc'') tie_rows = Inr ?asc"
    using sort_and_rebuild_rows [OF tie_rows_facts(1,2), of decimal_compare False]
    by (simp only: tie_rows_ascending tie_page_facts(4,5))
  note r1 = click_sorted [OF tie_page_facts(2,3) this]
  have hs1: "sortableHeaders ?p1 = [(plain_header (Some 0) 0)\<lparr>classList := [''sortable'', ''sort-asc'']\<rparr>]"
    by (simp add: click_headers [OF tie_page_facts(2,3)] tie_page_facts(5))
       (simp add: tie_page_def update_classes_def remove_sort_classes_def add_class_def
          plain_header_def)
  have first: "click decimal_compare tie_page 0 =
        (tie_page\<lparr>sortableHeaders := [(plain_header (Some 0) 0)\<lparr>classList := [''sortable'', ''sort-asc'']\<rparr>],
          tbody_rows := (tbody_rows tie_page)(0 := Some ?asc)\<rparr>, None)"
    using r1 hs1 by (cases "click decimal_compare tie_page 0") simp
  have body1: "tbody_rows ?p1 0 = Some ?asc" using r1(2) by simp
  have h1: "closest_table (sortableHeaders ?p1 ! 0) = Some 0"
    "column_index (sortableHeaders ?p1 ! 0) = 0"
    "contains (classList (sortableHeaders ?p1 ! 0)) ''sort-asc''"
    by (simp_all add: hs1 plain_header_def contains_def)
  have c: "has_column 0 ?asc" and d: "distinct_nodes ?asc"
    by (simp_all add: has_column_def distinct_nodes_def mk_row_def)
  have "sort_and_rebuild decimal_compare 0 True ?asc
        = Inr [mk_row 31 [''1''], mk_row 32 [''01''], mk_row 33 [''0'']]"
    using sort_and_rebuild_rows [OF c d, of decimal_compare True]
    by (simp only: tie_rows_descending)
  with h1 have "sort_and_rebuild decimal_compare (column_index (sortableHeaders ?p1 ! 0))
          (contains (classList (sortableHeaders ?p1 ! 0)) ''sort-asc'') ?asc
        = Inr [mk_row 31 [''1''], mk_row 32 [''01''], mk_row 33 [''0'']]"
    by simp
  note r2 = click_sorted [OF h1(1) body1 this]
  have ne: "[mk_row 31 [''1''], mk_row 32 [''01''], mk_row 33 [''0'']] \<noteq> rev ?asc"
    by (simp add: mk_row_def)
  show ?thesis
    using consistent_decimal tie_page_facts tie_rows_facts first r2 body1 ne by simp
qed

subsection \<open>Sorting twice\<close>

text \<open>
  C7. Sorting a column ascending twice in a row, the direction being ascending both
  times (lines 182 to 194 run with \<open>isAscending = False\<close>, without the toggle), gives
  the same order of rows the second time as the first.
\<close>

theorem ascending_sort_idempotent:
  assumes "consistent_comparator lc"
    and "has_column column rows"
    and "distinct_nodes rows"
  shows "\<exists>sorted_rows.
           sort_and_rebuild lc column False rows = Inr sorted_rows
         \<and> sort_and_rebuild lc column False sorted_rows = Inr sorted_rows
         \<and> sorted_wrt (ascending_order lc column) sorted_rows"
proof -
  let ?f = "row_compare lc column False"
  let ?s = "sort_by ?f rows"
  have first: "sort_and_rebuild lc column False rows = Inr ?s"
    using assms(2,3) by (rule sort_and_rebuild_rows)
  have srt: "sorted_wrt (\<lambda>a b. ?f a b \<le> 0) ?s"
    using row_compare_total [OF assms(1)] row_compare_trans [OF assms(1)]
    by (rule sorted_sort_by)
  then have again: "sort_by ?f ?s = ?s" by (rule sort_by_sorted)
  have col: "has_column column ?s"
    using assms(2) by (simp add: has_column_def list_all_iff set_sort_by)
  have "mset (map node_id ?s) = mset (map node_id rows)"
    by (simp add: mset_sort_by)
  then have dn: "distinct_nodes ?s"
    using assms(3) unfolding distinct_nodes_def by (metis mset_eq_imp_distinct_iff)
  have second: "sort_and_rebuild lc column False ?s = Inr ?s"
    using sort_and_rebuild_rows [OF col dn, of lc False] again by simp
  have "(\<lambda>a b. ?f a b \<le> 0) = ascending_order lc column"
    by (simp add: fun_eq_iff row_compare_def ascending_order_def)
  with srt have "sorted_wrt (ascending_order lc column) ?s" by simp
  with first second show ?thesis by blast
qed

theorem ascending_sort_idempotent_witness:
  "consistent_comparator decimal_compare \<and> has_column 0 demo_rows \<and> distinct_nodes demo_rows
   \<and> sort_and_rebuild decimal_compare 0 False demo_rows
       = Inr [mk_row 13 [''1'', ''c''], mk_row 11 [''2'', ''b''], mk_row 12 ['' 10 '', ''a'']]
   \<and> sort_and_rebuild decimal_compare 0 False
         [mk_row 13 [''1'', ''c''], mk_row 11 [''2'', ''b''], mk_row 12 ['' 10 '', ''a'']]
       = Inr [mk_row 13 [''1'', ''c''], mk_row 11 [''2'', ''b''], mk_row 12 ['' 10 '', ''a'']]"
proof -
  have first: "sort_and_rebuild decimal_compare 0 False demo_rows
       = Inr [mk_row 13 [''1'', ''c''], mk_row 11 [''2'', ''b''], mk_row 12 ['' 10 '', ''a'']]"
    using sort_and_rebuild_rows [OF demo_rows_facts, of decimal_compare False]
    by (simp add: demo_rows_sorted)
  from ascending_sort_idempotent [OF consistent_decimal demo_rows_facts]
  obtain sorted_rows where
    "sort_and_rebuild decimal_compare 0 False demo_rows = Inr sorted_rows"
    "sort_and_rebuild decimal_compare 0 False sorted_rows = Inr sorted_rows"
    by blast
  with first consistent_decimal demo_rows_facts show ?thesis by simp
qed

subsection \<open>Empty bodies\<close>

text \<open>
  C8. A click on a header of a table whose body exists and has no rows raises nothing
  and leaves the rows as they are: the body still has no rows.
\<close>

theorem empty_body_click:
  assumes "i < length (sortableHeaders p)"
    and "closest_table (sortableHeaders p ! i) = Some t"
    and "tbody_rows p t = Some []"
  shows "snd (click lc p i) = None
     \<and> tbody_rows (fst (click lc p i)) t = Some []
     \<and> length (the (tbody_rows (fst (click lc p i)) t)) = 0
     \<and> tbody_rows (fst (click lc p i)) = tbody_rows p"
proof -
  have s: "sort_and_rebuild lc (column_index (sortableHeaders p ! i))
           (contains (classList (sortableHeaders p ! i)) ''sort-asc'') [] = Inr []"
    by (simp add: sort_and_rebuild_def)
  have "(tbody_rows p)(t := Some []) = tbody_rows p"
    using assms(3) by auto
  with click_sorted [OF assms(2,3) s] assms(3) show ?thesis by simp
qed

theorem empty_body_click_witness:
  "(4::nat) < length (sortableHeaders demo_page)
   \<and> closest_table (sortableHeaders demo_page ! 4) = Some 2
   \<and> tbody_rows demo_page 2 = Some []
   \<and> snd (click decimal_compare demo_page 4) = None
   \<and> tbody_rows (fst (click decimal_compare demo_page 4)) 2 = Some []"
proof -
  have h: "(4::nat) < length (sortableHeaders demo_page)"
    "closest_table (sortableHeaders demo_page ! 4) = Some 2"
    "tbody_rows demo_page 2 = Some []"
    by (simp_all add: demo_page_def plain_header_def)
  with empty_body_click [OF h, of decimal_compare] show ?thesis
    by simp
qed

subsection \<open>The rows after a click\<close>

text \<open>
  C9. A click reorders the rows of a body and copies none: whatever the outcome, the
  rows of every body after the click are a permutation of its rows before (the same
  nodes with the same cells, each as often as before), and when the click raises
  nothing the rows of the clicked table stand in the order the sort has produced.
  The rows of a body are distinct nodes, as in every document.
\<close>

theorem click_permutes_rows:
  assumes "distinct_bodies p"
  shows "rel_option (\<lambda>old new. mset new = mset old)
           (tbody_rows p t') (tbody_rows (fst (click lc p i)) t')
     \<and> (snd (click lc p i) = None \<longrightarrow> closest_table (sortableHeaders p ! i) = Some t' \<longrightarrow>
          rel_option (\<lambda>old new.
              array_sort (comparator lc (column_index (sortableHeaders p ! i))
                 (contains (classList (sortableHeaders p ! i)) ''sort-asc'')) old = Inr new)
            (tbody_rows p t') (tbody_rows (fst (click lc p i)) t'))"
proof (cases "closest_table (sortableHeaders p ! i)")
  case None
  then show ?thesis
    by (simp add: click_no_table option.rel_refl)
next
  case (Some t)
  show ?thesis
  proof (cases "tbody_rows p t")
    case None
    with Some show ?thesis
      by (simp add: click_no_tbody option.rel_refl)
  next
    case body: (Some rows)
    from assms body have d: "distinct_nodes rows"
      by (simp add: distinct_bodies_def)
    show ?thesis
    proof (cases "sort_and_rebuild lc (column_index (sortableHeaders p ! i))
           (contains (classList (sortableHeaders p ! i)) ''sort-asc'') rows")
      case (Inl e)
      from click_raised [OF Some body Inl] Some show ?thesis
        by (simp add: option.rel_refl)
    next
      case (Inr rows')
      note after = click_sorted [OF Some body Inr]
      from d Inr have m: "mset rows' = mset rows" by (rule sort_and_rebuild_mset)
      from d Inr have srt: "array_sort (comparator lc (column_index (sortableHeaders p ! i))
                 (contains (classList (sortableHeaders p ! i)) ''sort-asc'')) rows = Inr rows'"
        by (rule sort_and_rebuild_sorted)
      show ?thesis
      proof (cases "t' = t")
        case True
        with after body m srt Some show ?thesis by simp
      next
        case False
        with after Some show ?thesis by (simp add: option.rel_refl)
      qed
    qed
  qed
qed

theorem click_permutes_rows_witness:
  "distinct_bodies demo_page
   \<and> snd (click decimal_compare demo_page 0) = None
   \<and> closest_table (sortableHeaders demo_page ! 0) = Some 0
   \<and> tbody_rows demo_page 0 = Some demo_rows
   \<and> tbody_rows (fst (click decimal_compare demo_page 0)) 0
       = Some [mk_row 13 [''1'', ''c''], mk_row 11 [''2'', ''b''], mk_row 12 ['' 10 '', ''a'']]
   \<and> rel_option (\<lambda>old new. mset new = mset old)
         (tbody_rows demo_page 0) (tbody_rows (fst (click decimal_compare demo_page 0)) 0)
   \<and> rel_option (\<lambda>old new. mset new = mset old)
         (tbody_rows demo_page 3) (tbody_rows (fst (click decimal_compare demo_page 0)) 3)"
proof -
  have h: "closest_table (sortableHeaders demo_page ! 0) = Some 0"
    "tbody_rows demo_page 0 = Some demo_rows"
    "\<not> contains (classList (sortableHeaders demo_page ! 0)) ''sort-asc''"
    "column_index (sortableHeaders demo_page ! 0) = 0"
    by (simp_all add: demo_page_headers demo_page_bodies plain_header_def contains_def)
  have "sort_and_rebuild decimal_compare (column_index (sortableHeaders demo_page ! 0))
          (contains (classList (sortableHeaders demo_page ! 0)) ''sort-asc'') demo_rows
        = Inr [mk_row 13 [''1'', ''c''], mk_row 11 [''2'', ''b''], mk_row 12 ['' 10 '', ''a'']]"
    using sort_and_rebuild_rows [OF demo_rows_facts, of decimal_compare False] h(3,4)
    by (simp add: demo_rows_sorted)
  note r = click_sorted [OF h(1,2) this]
  from click_permutes_rows [OF distinct_bodies_demo, of 0 decimal_compare 0]
    click_permutes_rows [OF distinct_bodies_demo, of 3 decimal_compare 0]
  have "rel_option (\<lambda>old new. mset new = mset old)
         (tbody_rows demo_page 0) (tbody_rows (fst (click decimal_compare demo_page 0)) 0)"
    "rel_option (\<lambda>old new. mset new = mset old)
         (tbody_rows demo_page 3) (tbody_rows (fst (click decimal_compare demo_page 0)) 3)"
    by blast+
  with r h distinct_bodies_demo show ?thesis by simp
qed

subsection \<open>Number input formatting\<close>

text \<open>
  C10. Whatever the field held, after the handler has run its value consists of the
  digits 0 to 9 and at most one dot: every other code unit is stripped, and of several
  dots only the first is kept (the browser may in addition empty a field whose new
  value it does not accept as a number).
\<close>

theorem number_input_sanitized:
  "list_all (\<lambda>c. is_digit c \<or> c = dot) (number_input_handler valid v)
   \<and> count_list (number_input_handler valid v) dot \<le> 1
   \<and> (number_input_handler valid v = keep_first_dot (strip_non_numeric v)
        \<or> number_input_handler valid v = [])
   \<and> number_input_handler (\<lambda>_. True) v = keep_first_dot (strip_non_numeric v)"
proof -
  have "set (keep_first_dot (strip_non_numeric v)) \<subseteq> {c. is_digit c \<or> c = dot}"
    using keep_first_dot_subset [of "strip_non_numeric v"] by (auto simp: strip_non_numeric_def)
  then have a: "list_all (\<lambda>c. is_digit c \<or> c = dot) (keep_first_dot (strip_non_numeric v))"
    by (auto simp: list_all_iff)
  from handler_cases [of valid v] a keep_first_dot_count [of "strip_non_numeric v"]
  have "list_all (\<lambda>c. is_digit c \<or> c = dot) (number_input_handler valid v)"
    "count_list (number_input_handler valid v) dot \<le> 1"
    by auto
  with handler_cases [of valid v] handler_keeps_all [of v] show ?thesis by simp
qed

lemma number_input_example:
  "number_input_handler (\<lambda>_. True) (js ''-1.2e.3.x4'') = js ''1.234''"
  by (simp add: number_input_handler_def set_value_def strip_non_numeric_def js_def is_digit_def dot_def)

end
